theory Spec2Isabelle
  imports Main "HOL-Library.Word"
begin

unbundle bit_operations_syntax

section \<open>Strings and errors\<close>

text \<open>
  A Python \<open>str\<close> is represented by the list of its UTF-8 bytes (\<^typ>\<open>string\<close>).
  The operations the program applies to strings (\<open>replace\<close> of the backslash,
  \<open>split\<close> and \<open>join\<close> on the slash, \<open>endswith\<close>, and \<open>lower\<close> followed by a
  comparison with an ASCII suffix) act on ASCII bytes only, which never occur inside a
  multi-byte UTF-8 sequence.
\<close>

text \<open>\<open>s.split(sep)\<close> for a one-character separator: never empty, \<open>"".split("/") == [""]\<close>.\<close>

fun split_str :: "char \<Rightarrow> string \<Rightarrow> string list" where
  "split_str sep [] = [[]]"
| "split_str sep (c # cs) =
     (if c = sep then [] # split_str sep cs
      else (c # hd (split_str sep cs)) # tl (split_str sep cs))"

text \<open>\<open>sep.join(parts)\<close>.\<close>

fun join_str :: "string \<Rightarrow> string list \<Rightarrow> string" where
  "join_str sep [] = []"
| "join_str sep [p] = p"
| "join_str sep (p # q # ps) = p @ sep @ join_str sep (q # ps)"

definition lower_char :: "char \<Rightarrow> char" where
  "lower_char c =
     (let n = (of_char c :: nat) in if 65 \<le> n \<and> n \<le> 90 then char_of (n + 32) else c)"

definition lower :: "string \<Rightarrow> string" where
  "lower s = map lower_char s"

definition endswith :: "string \<Rightarrow> string \<Rightarrow> bool" where
  "endswith s suf = (length suf \<le> length s \<and> drop (length s - length suf) s = suf)"

text \<open>
  Modelled from the spec: the exception classes of \<open>z_lib.exceptions\<close>
  (\<open>ZipPathError\<close>, \<open>ZipNotLoadedError\<close>), which the spec lists as the error kinds
  invalid-archive and archive-not-loaded; archive-not-found is Python's
  \<open>FileNotFoundError\<close>. Each carries its message. The remaining constructors are the
  built-in exceptions that library calls of the program can raise.
\<close>

datatype error =
    ZipNotLoadedError string
  | ZipPathError string
  | FileNotFoundError string
  | UnicodeEncodeError
  | OSError string
  | RuntimeError string

section \<open>Handles and the registry\<close>

text \<open>
  Modelled from the spec: \<open>z_lib._types\<close> declares \<open>ZipHandle\<close> (a dictionary with the
  keys \<open>path\<close>, \<open>temp_dir\<close>, \<open>mode\<close>) and \<open>OpenMode\<close>; the spec gives the two modes
  read and read-write, which the code writes \<open>"r"\<close> and \<open>"rw"\<close>.
\<close>

datatype OpenMode = R | RW

record ZipHandle =
  path :: string
  temp_dir :: string
  mode :: OpenMode

text \<open>
  \<open>loaded_zips\<close> is a Python dictionary; it is kept as an association list because the
  walk iterates over its items in insertion order. A key is looked up with
  \<^const>\<open>map_of\<close>.
\<close>

type_synonym registry = "(string \<times> ZipHandle) list"

section \<open>The environment: the library calls that read the file system\<close>

text \<open>
  One item of what a generator hands to its consumer, in order: \<open>Enter v\<close> marks an
  invocation \<open>_walk_recursive(v, ...)\<close>, \<open>Yield v dirs files\<close> is a yielded tuple,
  \<open>OnError m\<close> a call of the \<open>onerror\<close> callback, and \<open>Raised e\<close> an exception that
  leaves the generator (always the last item).
\<close>

datatype event =
    Enter string
  | Yield string "string list" "string list"
  | OnError error
  | Raised error

text \<open>
  What the consumer does to the yielded list of subdirectory names before it resumes the
  generator: given the yielded tuple, the contents of that list object afterwards.
\<close>

type_synonym edit = "string \<Rightarrow> string list \<Rightarrow> string list \<Rightarrow> string list"

text \<open>
  The calls into \<open>pathlib\<close> and \<open>os\<close> are parameters. Paths are the strings \<open>str(p)\<close>.
  \<^item> \<open>resolve p\<close> is \<open>str(Path(p).resolve())\<close>, or the exception it raises;
  \<^item> \<open>joinpath a b\<close> is \<open>str(Path(a) / b)\<close>;
  \<^item> \<open>is_dir\<close>, \<open>is_symlink\<close> are the methods of \<open>Path\<close>;
  \<^item> \<open>iterdir p\<close> is the list of entry names of \<open>Path(p).iterdir()\<close>, or its \<open>OSError\<close>;
  \<^item> \<open>relative_to p q\<close> is \<open>str(Path(p).relative_to(Path(q)))\<close>, or its \<open>ValueError\<close>;
  \<^item> \<open>os_walk top topdown onerror followlinks edit\<close> is what \<open>os.walk\<close> produces
    (its tuples and its \<open>onerror\<close> calls) for a consumer that edits each yielded list of
    directory names with \<open>edit\<close>.
\<close>

record os_env =
  resolve :: "string \<Rightarrow> error + string"
  joinpath :: "string \<Rightarrow> string \<Rightarrow> string"
  is_dir :: "string \<Rightarrow> bool"
  is_symlink :: "string \<Rightarrow> bool"
  iterdir :: "string \<Rightarrow> error + string list"
  relative_to :: "string \<Rightarrow> string \<Rightarrow> error + string"
  os_walk :: "string \<Rightarrow> bool \<Rightarrow> bool \<Rightarrow> bool \<Rightarrow> edit \<Rightarrow> event list"

section \<open>path_resolver.py\<close>

definition normalize_path :: "string \<Rightarrow> string" where
  "normalize_path p = map (\<lambda>c. if c = CHR 0x5C then CHR ''/'' else c) p"

text \<open>
  The loop of \<open>split_zip_path\<close>: \<open>done\<close> holds the components already appended to
  \<open>current_path_parts\<close>, the list argument those from index \<open>i\<close> on.
\<close>

fun split_zip_loop :: "string list \<Rightarrow> string list \<Rightarrow> (string \<times> string) option" where
  "split_zip_loop done [] = None"
| "split_zip_loop done (part # rest) =
     (if endswith (lower part) ''.zip''
      then Some (join_str ''/'' (done @ [part]), join_str ''/'' rest)
      else split_zip_loop (done @ [part]) rest)"

definition split_zip_path :: "string \<Rightarrow> string option \<times> string" where
  "split_zip_path p =
     (case split_zip_loop [] (split_str CHR ''/'' (normalize_path p)) of
        Some (zip_path, internal_path) \<Rightarrow> (Some zip_path, internal_path)
      | None \<Rightarrow> (None, p))"

text \<open>
  The two loops of \<open>find_longest_match_handle\<close>, over \<open>i = len(parts), ..., 1\<close>. In the
  second an exception of \<open>resolve\<close> is caught and the loop goes on.
\<close>

fun match_exact :: "registry \<Rightarrow> string list \<Rightarrow> nat \<Rightarrow> (ZipHandle \<times> string) option" where
  "match_exact zips parts 0 = None"
| "match_exact zips parts (Suc i) =
     (case map_of zips (join_str ''/'' (take (Suc i) parts)) of
        Some handle \<Rightarrow> Some (handle, join_str ''/'' (drop (Suc i) parts))
      | None \<Rightarrow> match_exact zips parts i)"

fun match_resolved ::
  "os_env \<Rightarrow> registry \<Rightarrow> string list \<Rightarrow> nat \<Rightarrow> (ZipHandle \<times> string) option" where
  "match_resolved env zips parts 0 = None"
| "match_resolved env zips parts (Suc i) =
     (case resolve env (join_str ''/'' (take (Suc i) parts)) of
        Inl e \<Rightarrow> match_resolved env zips parts i
      | Inr p \<Rightarrow>
          (case map_of zips (normalize_path p) of
             Some handle \<Rightarrow> Some (handle, join_str ''/'' (drop (Suc i) parts))
           | None \<Rightarrow> match_resolved env zips parts i))"

text \<open>
  The test of the second loop, as a function of the prefix: the handle registered under
  the normalized resolved path, \<open>None\<close> also when \<open>resolve\<close> raises.
\<close>

definition resolved_key :: "os_env \<Rightarrow> registry \<Rightarrow> string \<Rightarrow> ZipHandle option" where
  "resolved_key env zips s =
     (case resolve env s of
        Inl e \<Rightarrow> None
      | Inr p \<Rightarrow> map_of zips (normalize_path p))"

definition find_longest_match_handle ::
  "os_env \<Rightarrow> string \<Rightarrow> registry \<Rightarrow> ZipHandle option \<times> string" where
  "find_longest_match_handle env p zips =
     (let parts = split_str CHR ''/'' (normalize_path p) in
      case match_exact zips parts (length parts) of
        Some (handle, internal_path) \<Rightarrow> (Some handle, internal_path)
      | None \<Rightarrow>
          (case match_resolved env zips parts (length parts) of
             Some (handle, internal_path) \<Rightarrow> (Some handle, internal_path)
           | None \<Rightarrow> (None, p)))"

definition not_loaded_message :: "string \<Rightarrow> string \<Rightarrow> string" where
  "not_loaded_message potential_zip p =
     ''ZIP file '' @ [CHR 0x27] @ potential_zip @ [CHR 0x27] @
     '' is not loaded (or path '' @ [CHR 0x27] @ p @ [CHR 0x27] @ '' is invalid).''"

definition resolve_to_real_path :: "os_env \<Rightarrow> string \<Rightarrow> registry \<Rightarrow> error + string" where
  "resolve_to_real_path env p zips =
     (case find_longest_match_handle env p zips of
        (Some handle, internal_path) \<Rightarrow> Inr (joinpath env (temp_dir handle) internal_path)
      | (None, _) \<Rightarrow>
          (case split_zip_path p of
             (Some potential_zip, _) \<Rightarrow>
               Inl (ZipNotLoadedError (not_loaded_message potential_zip p))
           | (None, _) \<Rightarrow> resolve env p))"

section \<open>namespaces/z\_os.py: the walk\<close>

text \<open>
  The loop over \<open>entries\<close> in \<open>_walk_recursive\<close>. An entry is the path
  \<open>real_top / name\<close>; the three accumulators are \<open>sub_dirs\<close>, \<open>zip_entries\<close> and
  \<open>sub_files\<close>. An exception of \<open>entry.resolve()\<close> leaves the loop.
\<close>

fun classify ::
  "os_env \<Rightarrow> registry \<Rightarrow> bool \<Rightarrow> string \<Rightarrow> string list \<Rightarrow>
   string list \<times> string list \<times> string list \<Rightarrow>
   error + (string list \<times> string list \<times> string list)" where
  "classify env zips followlinks real_top [] acc = Inr acc"
| "classify env zips followlinks real_top (name # rest) (sub_dirs, zip_entries, sub_files) =
     (let entry = joinpath env real_top name in
      case resolve env entry of
        Inl e \<Rightarrow> Inl e
      | Inr r \<Rightarrow>
          (let norm_entry = normalize_path r in
           if is_dir env entry \<and> \<not> (is_symlink env entry \<and> \<not> followlinks)
           then classify env zips followlinks real_top rest
                  (sub_dirs @ [name], zip_entries, sub_files)
           else if norm_entry \<in> set (map fst zips)
           then classify env zips followlinks real_top rest
                  (sub_dirs, zip_entries @ [name], sub_files)
           else classify env zips followlinks real_top rest
                  (sub_dirs, zip_entries, sub_files @ [name])))"



text \<open>
  The local list objects of one invocation. \<open>virtual_dirs = sub_dirs + zip_entries\<close>
  builds a new list: the object that is yielded is neither \<open>sub_dirs\<close> nor
  \<open>zip_entries\<close>, so what the consumer does to the yielded list changes
  \<open>virtual_dirs\<close> only.
\<close>

record frame =
  sub_dirs :: "string list"
  zip_entries :: "string list"
  sub_files :: "string list"
  virtual_dirs :: "string list"

definition consumer_edits :: "edit \<Rightarrow> string \<Rightarrow> frame \<Rightarrow> frame" where
  "consumer_edits ed virtual_top fr =
     fr\<lparr>virtual_dirs := ed virtual_top (virtual_dirs fr) (sub_files fr)\<rparr>"

text \<open>A trace that ends in an exception: the generator is finished.\<close>

definition raised :: "event list \<Rightarrow> bool" where
  "raised t = (case t of [] \<Rightarrow> False | _ \<Rightarrow> (case last t of Raised e \<Rightarrow> True | _ \<Rightarrow> False))"

text \<open>
  Sequential composition of two parts of a generator body: \<open>None\<close> is a part that has
  not finished within the recursion depth allowed; after an exception nothing runs.
\<close>

definition then_walk :: "event list option \<Rightarrow> event list option \<Rightarrow> event list option" where
  "then_walk a b =
     (case a of
        None \<Rightarrow> None
      | Some t \<Rightarrow>
          if raised t then Some t
          else (case b of None \<Rightarrow> None | Some u \<Rightarrow> Some (t @ u)))"

text \<open>A \<open>for\<close> loop whose body is \<open>yield from f(c)\<close>.\<close>

fun walk_each :: "(string \<Rightarrow> event list option) \<Rightarrow> string list \<Rightarrow> event list option" where
  "walk_each f [] = Some []"
| "walk_each f (c # cs) = then_walk (f c) (walk_each f cs)"

text \<open>
  The archive-backed branch. \<open>zip_key_of\<close> is the \<open>next(...)\<close> over the items of the
  registry; \<open>virtual_root\<close> the rewritten root. The tuples of \<open>os.walk\<close> are yielded
  with the list objects of \<open>os.walk\<close> itself, so the consumer edits those
  (\<open>archive_edit\<close>); a tuple whose root is not below the working directory is skipped.
\<close>

definition zip_key_of :: "registry \<Rightarrow> ZipHandle \<Rightarrow> string option" where
  "zip_key_of zips handle =
     map_option fst (find (\<lambda>kv. temp_dir (snd kv) = temp_dir handle) zips)"

definition virtual_root :: "string \<Rightarrow> string \<Rightarrow> string" where
  "virtual_root zip_key rel =
     (if rel = ''.'' then zip_key else zip_key @ ''/'' @ normalize_path rel)"

definition archive_edit :: "os_env \<Rightarrow> registry \<Rightarrow> ZipHandle \<Rightarrow> edit \<Rightarrow> edit" where
  "archive_edit env zips handle ed root dirs files =
     (case relative_to env root (temp_dir handle) of
        Inl e \<Rightarrow> dirs
      | Inr rel \<Rightarrow>
          (case zip_key_of zips handle of
             None \<Rightarrow> dirs
           | Some zip_key \<Rightarrow> ed (virtual_root zip_key rel) dirs files))"

fun rewrite_roots :: "os_env \<Rightarrow> registry \<Rightarrow> ZipHandle \<Rightarrow> event list \<Rightarrow> event list" where
  "rewrite_roots env zips handle [] = []"
| "rewrite_roots env zips handle (Yield root dirs files # rest) =
     (case relative_to env root (temp_dir handle) of
        Inl e \<Rightarrow> rewrite_roots env zips handle rest
      | Inr rel \<Rightarrow>
          (case zip_key_of zips handle of
             None \<Rightarrow> [Raised (RuntimeError ''generator raised StopIteration'')]
           | Some zip_key \<Rightarrow>
               Yield (virtual_root zip_key rel) dirs files # rewrite_roots env zips handle rest))"
| "rewrite_roots env zips handle (ev # rest) = ev # rewrite_roots env zips handle rest"

definition archive_branch ::
  "os_env \<Rightarrow> registry \<Rightarrow> edit \<Rightarrow> ZipHandle \<Rightarrow> string \<Rightarrow> bool \<Rightarrow> bool \<Rightarrow> bool \<Rightarrow> event list" where
  "archive_branch env zips ed handle internal_path topdown onerror followlinks =
     (let real_top = joinpath env (temp_dir handle) internal_path in
      rewrite_roots env zips handle
        (os_walk env real_top topdown onerror followlinks (archive_edit env zips handle ed)))"

text \<open>
  \<open>_walk_recursive\<close>. The first argument bounds the depth of the recursion (the file
  system may hold a cycle of links); \<open>onerror\<close> tells whether a callback was given. The
  two loops over the children read \<open>sub_dirs\<close> and \<open>zip_entries\<close> of the frame.
\<close>

fun walk_recursive ::
  "nat \<Rightarrow> os_env \<Rightarrow> registry \<Rightarrow> edit \<Rightarrow> string \<Rightarrow> bool \<Rightarrow> bool \<Rightarrow> bool \<Rightarrow> event list option" where
  "walk_recursive 0 env zips ed virtual_top topdown onerror followlinks = None"
| "walk_recursive (Suc n) env zips ed virtual_top topdown onerror followlinks =
     (case find_longest_match_handle env virtual_top zips of
        (Some handle, internal_path) \<Rightarrow>
          Some (Enter virtual_top #
                archive_branch env zips ed handle internal_path topdown onerror followlinks)
      | (None, _) \<Rightarrow>
          (case resolve env virtual_top of
             Inl e \<Rightarrow> Some [Enter virtual_top, Raised e]
           | Inr real_top \<Rightarrow>
               if \<not> is_dir env real_top
               then Some (Enter virtual_top #
                      (if onerror then [OnError (OSError (''Not a directory: '' @ virtual_top))]
                       else []))
               else
                 (case iterdir env real_top of
                    Inl e \<Rightarrow> Some (Enter virtual_top # (if onerror then [OnError e] else []))
                  | Inr entries \<Rightarrow>
                      (case classify env zips followlinks real_top entries ([], [], []) of
                         Inl e \<Rightarrow> Some [Enter virtual_top, Raised e]
                       | Inr (sd, ze, sf) \<Rightarrow>
                           (let fr = \<lparr>sub_dirs = sd, zip_entries = ze, sub_files = sf,
                                      virtual_dirs = sd @ ze\<rparr>;
                                fr' = (if topdown then consumer_edits ed virtual_top fr else fr)
                            in
                            then_walk
                              (Some (Enter virtual_top #
                                 (if topdown
                                  then [Yield virtual_top (virtual_dirs fr) (sub_files fr)]
                                  else [])))
                              (then_walk
                                 (walk_each
                                    (\<lambda>d. walk_recursive n env zips ed (virtual_top @ ''/'' @ d)
                                            topdown onerror followlinks)
                                    (sub_dirs fr'))
                                 (then_walk
                                    (walk_each
                                       (\<lambda>zname.
                                          case resolve env (joinpath env real_top zname) of
                                            Inl e \<Rightarrow> Some [Raised e]
                                          | Inr p \<Rightarrow>
                                              walk_recursive n env zips ed (normalize_path p)
                                                topdown onerror followlinks)
                                       (zip_entries fr'))
                                    (Some (if \<not> topdown
                                           then [Yield virtual_top (virtual_dirs fr')
                                                   (sub_files fr')]
                                           else [])))))))))"

definition walk ::
  "nat \<Rightarrow> os_env \<Rightarrow> registry \<Rightarrow> edit \<Rightarrow> string \<Rightarrow> bool \<Rightarrow> bool \<Rightarrow> bool \<Rightarrow> event list option" where
  "walk n env zips ed top_path topdown onerror followlinks =
     walk_recursive n env zips ed (normalize_path top_path) topdown onerror followlinks"

section \<open>backend/zipfile\_backend.py\<close>

subsection \<open>Archives, directory trees and the world\<close>

type_synonym bytes = "8 word list"

text \<open>
  An entry as \<open>zipfile\<close> presents it: the \<open>ZipInfo\<close> with the name the reader decoded and
  the general purpose bit flags, and the decompressed payload. An archive is the list of
  its entries, in the order of \<open>infolist()\<close>; the compressed stream is not modelled.
\<close>

record ZipInfo =
  filename :: string
  flag_bits :: int

type_synonym archive = "(ZipInfo \<times> bytes) list"

text \<open>The file at the archive path: a valid archive (\<open>is_zipfile\<close>) or anything else.\<close>

datatype file_content = Zip archive | Other bytes

text \<open>
  A directory tree: a regular file with its bytes, an entry that is not a directory and
  cannot be read (a dangling link, a file without permission), or a directory with its
  entries in listing order.
\<close>

datatype node = File bytes | NoRead | Dir "(string \<times> node) list"

text \<open>What lies at \<open>original_path.parent\<close>: nothing, a directory, or something else.\<close>

datatype parent_kind = NoParent | ParentDir | ParentFile

text \<open>
  The part of the file system that one archive path can touch: the file at the archive
  path (\<open>None\<close> when absent), its parent, the file made by \<open>mkstemp\<close> beside it, the
  directories made by \<open>mkdtemp\<close>, by path, and the entries that an extraction has
  written outside its working directory, in order, each with the name it was written
  under (relative to the working directory, or absolute) and its bytes (\<open>None\<close> for a
  directory).
\<close>

record world =
  target :: "file_content option"
  parent :: parent_kind
  temp_zip :: "file_content option"
  temp_dirs :: "string \<Rightarrow> node option"
  outside :: "(string \<times> bytes option) list"

text \<open>
  The library calls whose failure does not follow from the world above; \<open>fails\<close> below
  tells, for each, the exception it raises, if any.
\<close>

datatype lib_call =
    MkdirParent
  | Mkstemp
  | ZipOpen
  | ZipWrite "string list"
  | ZipClose
  | Move
  | WriteOutside string

text \<open>
  The library calls of the backend are further parameters:
  \<^item> \<open>cp437_encode s\<close> is \<open>s.encode("cp437")\<close>, \<open>None\<close> for \<open>UnicodeEncodeError\<close>;
  \<^item> \<open>cp932_decode b\<close> is \<open>b.decode("cp932")\<close>, \<open>None\<close> for \<open>UnicodeDecodeError\<close>;
  \<^item> \<open>mkdtemp\<close> gives the path of the directory that \<open>tempfile.mkdtemp\<close> creates;
  \<^item> \<open>rmtree_left t\<close> is what \<open>shutil.rmtree\<close> fails to delete of the tree \<open>t\<close>
    (\<open>None\<close> when the deletion meets no error and the directory is gone);
  \<^item> \<open>fails c\<close> is the exception that the library call \<open>c\<close> raises, \<open>None\<close> when it
    succeeds: \<open>original_path.parent.mkdir\<close>, \<open>tempfile.mkstemp\<close>, the constructor
    \<open>zipfile.ZipFile(temp_zip_path, "w")\<close>, \<open>zf.write\<close> of the readable file at a
    relative path, the closing of the archive at the end of the \<open>with\<close> block,
    \<open>shutil.move\<close>, and the creation of an entry outside the working directory.
\<close>

record backend_env = os_env +
  cp437_encode :: "string \<Rightarrow> bytes option"
  cp932_decode :: "bytes \<Rightarrow> string option"
  mkdtemp :: "(string \<Rightarrow> node option) \<Rightarrow> string"
  rmtree_left :: "node \<Rightarrow> node option"
  fails :: "lib_call \<Rightarrow> error option"

subsection \<open>Decoding of entry names\<close>

definition FLAG_UTF8 :: int where
  "FLAG_UTF8 = 0x800"

definition decode_zip_filename :: "backend_env \<Rightarrow> ZipInfo \<Rightarrow> error + string" where
  "decode_zip_filename env info =
     (if (flag_bits info AND FLAG_UTF8) \<noteq> 0 then Inr (filename info)
      else
        (case cp437_encode env (filename info) of
           None \<Rightarrow> Inl UnicodeEncodeError
         | Some raw_bytes \<Rightarrow>
             (case cp932_decode env raw_bytes of
                Some s \<Rightarrow> Inr s
              | None \<Rightarrow> Inr (filename info))))"

subsection \<open>Extraction\<close>

text \<open>
  \<open>Path(dest_dir) / name\<close>: \<open>pathlib\<close> drops empty components and \<open>.\<close>, keeps \<open>..\<close>, and
  an absolute name replaces \<open>dest_dir\<close> altogether.
\<close>

definition name_parts :: "string \<Rightarrow> string list" where
  "name_parts name = filter (\<lambda>c. c \<noteq> [] \<and> c \<noteq> ''.'') (split_str CHR ''/'' name)"

definition is_absolute :: "string \<Rightarrow> bool" where
  "is_absolute name = (name \<noteq> [] \<and> hd name = CHR ''/'')"

fun set_child :: "string \<Rightarrow> node \<Rightarrow> (string \<times> node) list \<Rightarrow> (string \<times> node) list" where
  "set_child c k [] = [(c, k)]"
| "set_child c k ((n, x) # rest) =
     (if n = c then (c, k) # rest else (n, x) # set_child c k rest)"

text \<open>
  \<open>mkdir(parents=True, exist_ok=True)\<close> of the directory at the given components, none
  of which is \<open>..\<close>.
\<close>

fun mkdirs :: "string list \<Rightarrow> node \<Rightarrow> error + node" where
  "mkdirs [] (Dir kids) = Inr (Dir kids)"
| "mkdirs [] t = Inl (OSError ''File exists'')"
| "mkdirs (c # cs) (Dir kids) =
     (case mkdirs cs (case map_of kids c of None \<Rightarrow> Dir [] | Some k \<Rightarrow> k) of
        Inl e \<Rightarrow> Inl e
      | Inr k' \<Rightarrow> Inr (Dir (set_child c k' kids)))"
| "mkdirs (c # cs) t = Inl (OSError ''Not a directory'')"

text \<open>
  The same for components that may be \<open>..\<close>. The operating system resolves the path
  from the left: a name is a directory that is there or is made, \<open>..\<close> is the parent of
  the directory reached (\<open>pos\<close>, from the working directory). The result is the
  directory reached, \<open>None\<close> when a \<open>..\<close> has left the working directory, or the
  exception; and the tree with the directories made so far.
\<close>

fun make_dirs ::
  "string list \<Rightarrow> string list \<Rightarrow> node \<Rightarrow> (error + string list option) \<times> node" where
  "make_dirs pos [] t = (Inr (Some pos), t)"
| "make_dirs pos (c # cs) t =
     (if c = ''..''
      then (if pos = [] then (Inr None, t) else make_dirs (butlast pos) cs t)
      else (case mkdirs (pos @ [c]) t of
              Inl e \<Rightarrow> (Inl e, t)
            | Inr t' \<Rightarrow> make_dirs (pos @ [c]) cs t'))"

text \<open>
  \<open>open(dest_path, "wb")\<close> and the copy of the payload: the file is created or
  overwritten in its parent directory.
\<close>

fun put_file :: "string list \<Rightarrow> bytes \<Rightarrow> node \<Rightarrow> error + node" where
  "put_file [] b t = Inl (OSError ''Is a directory'')"
| "put_file [c] b (Dir kids) =
     (case map_of kids c of
        Some (Dir sub) \<Rightarrow> Inl (OSError ''Is a directory'')
      | Some NoRead \<Rightarrow> Inl (OSError ''Permission denied'')
      | _ \<Rightarrow> Inr (Dir (set_child c (File b) kids)))"
| "put_file (c # cs) b (Dir kids) =
     (case map_of kids c of
        None \<Rightarrow> Inl (OSError ''No such file or directory'')
      | Some k \<Rightarrow>
          (case put_file cs b k of
             Inl e \<Rightarrow> Inl e
           | Inr k' \<Rightarrow> Inr (Dir (set_child c k' kids))))"
| "put_file (c # cs) b t = Inl (OSError ''Not a directory'')"

text \<open>
  The state of an extraction: the tree of \<open>dest_dir\<close> and the entries written outside
  it. \<open>write_outside\<close> is the creation of an entry at a path that has left \<open>dest_dir\<close>:
  no test in \<open>_extract_with_encoding\<close> prevents it, and it succeeds or fails as the rest
  of the file system decides.
\<close>

type_synonym dest_state = "node \<times> (string \<times> bytes option) list"

definition write_outside ::
  "backend_env \<Rightarrow> string \<Rightarrow> bytes option \<Rightarrow> dest_state \<Rightarrow> error option \<times> dest_state" where
  "write_outside env name payload st =
     (case fails env (WriteOutside name) of
        Some e \<Rightarrow> (Some e, st)
      | None \<Rightarrow> (None, (fst st, snd st @ [(name, payload)])))"

text \<open>
  The body of the loop of \<open>_extract_with_encoding\<close> for one entry. The result is the
  exception, if any, and the state as it is left.
\<close>

definition extract_entry ::
  "backend_env \<Rightarrow> ZipInfo \<times> bytes \<Rightarrow> dest_state \<Rightarrow> error option \<times> dest_state" where
  "extract_entry env entry st =
     (case decode_zip_filename env (fst entry) of
        Inl e \<Rightarrow> (Some e, st)
      | Inr correct_name \<Rightarrow>
          (let parts = name_parts correct_name in
           if endswith correct_name ''/''
           then
             (if is_absolute correct_name then write_outside env correct_name None st
              else
                (case make_dirs [] parts (fst st) of
                   (Inl e, t') \<Rightarrow> (Some e, (t', snd st))
                 | (Inr None, t') \<Rightarrow> write_outside env correct_name None (t', snd st)
                 | (Inr (Some pos), t') \<Rightarrow> (None, (t', snd st))))
           else
             (if is_absolute correct_name
              then write_outside env correct_name (Some (snd entry)) st
              else
                (case make_dirs [] (butlast parts) (fst st) of
                   (Inl e, t') \<Rightarrow> (Some e, (t', snd st))
                 | (Inr None, t') \<Rightarrow>
                     write_outside env correct_name (Some (snd entry)) (t', snd st)
                 | (Inr (Some pos), t') \<Rightarrow>
                     if parts = [] \<or> last parts = ''..''
                     then (Some (OSError ''Is a directory''), (t', snd st))
                     else
                       (case put_file (pos @ [last parts]) (snd entry) t' of
                          Inl e \<Rightarrow> (Some e, (t', snd st))
                        | Inr t'' \<Rightarrow> (None, (t'', snd st)))))))"

fun extract_with_encoding ::
  "backend_env \<Rightarrow> archive \<Rightarrow> dest_state \<Rightarrow> error option \<times> dest_state" where
  "extract_with_encoding env [] st = (None, st)"
| "extract_with_encoding env (entry # rest) st =
     (case extract_entry env entry st of
        (Some e, st') \<Rightarrow> (Some e, st')
      | (None, st') \<Rightarrow> extract_with_encoding env rest st')"

subsection \<open>open\<close>


subsection \<open>close\<close>

text \<open>
  The entry that \<open>zf.write(file_path, arcname)\<close> stores, as a reader sees it afterwards:
  the name is the path relative to the working directory, and the UTF-8 flag is set
  exactly when the name is not ASCII.
\<close>

definition written_info :: "string list \<Rightarrow> ZipInfo" where
  "written_info rel =
     (let arcname = join_str ''/'' rel in
      \<lparr>filename = arcname,
       flag_bits = (if \<forall>c \<in> set arcname. (of_char c :: nat) < 128 then 0 else FLAG_UTF8)\<rparr>)"

text \<open>
  The loops \<open>for root, _dirs, files in os.walk(temp_dir): for file in files\<close>. \<open>os.walk\<close>
  goes top-down: \<open>zip_files\<close> is the inner loop over the entries of one directory that
  are not directories, \<open>zip_dirs\<close> the descent into its subdirectories, \<open>zip_tree\<close> one
  directory. The accumulator is the archive written so far; \<open>zf.write\<close> raises on an
  entry that cannot be read, or as \<open>fails\<close> says, and the loops stop there.
\<close>

fun zip_files ::
  "backend_env \<Rightarrow> string list \<Rightarrow> (string \<times> node) list \<Rightarrow> archive \<Rightarrow> error option \<times> archive" where
  "zip_files env root [] acc = (None, acc)"
| "zip_files env root ((name, File b) # rest) acc =
     (case fails env (ZipWrite (root @ [name])) of
        Some e \<Rightarrow> (Some e, acc)
      | None \<Rightarrow> zip_files env root rest (acc @ [(written_info (root @ [name]), b)]))"
| "zip_files env root ((name, NoRead) # rest) acc =
     (Some (OSError (''cannot read '' @ join_str ''/'' (root @ [name]))), acc)"
| "zip_files env root ((name, Dir sub) # rest) acc = zip_files env root rest acc"

fun zip_tree :: "backend_env \<Rightarrow> string list \<Rightarrow> node \<Rightarrow> archive \<Rightarrow> error option \<times> archive"
  and zip_dirs ::
    "backend_env \<Rightarrow> string list \<Rightarrow> (string \<times> node) list \<Rightarrow> archive \<Rightarrow> error option \<times> archive" where
  "zip_tree env root (Dir kids) acc =
     (case zip_files env root kids acc of
        (Some e, a) \<Rightarrow> (Some e, a)
      | (None, a) \<Rightarrow> zip_dirs env root kids a)"
| "zip_tree env root (File b) acc = (None, acc)"
| "zip_tree env root NoRead acc = (None, acc)"
| "zip_dirs env root [] acc = (None, acc)"
| "zip_dirs env root ((name, k) # rest) acc =
     (case k of
        Dir sub \<Rightarrow>
          (case zip_tree env (root @ [name]) k acc of
             (Some e, a) \<Rightarrow> (Some e, a)
           | (None, a) \<Rightarrow> zip_dirs env root rest a)
      | _ \<Rightarrow> zip_dirs env root rest acc)"

text \<open>
  The statements of \<open>close\<close> before the inner \<open>try\<close>: the \<open>mkdir\<close> of the parent when
  nothing is there, and \<open>mkstemp\<close>, which makes an empty file in the parent and needs
  it to be a directory.
\<close>

definition prepare :: "backend_env \<Rightarrow> world \<Rightarrow> error option \<times> world" where
  "prepare env w =
     (case (if parent w = NoParent
            then (case fails env MkdirParent of
                    Some e \<Rightarrow> (Some e, w)
                  | None \<Rightarrow> (None, w\<lparr>parent := ParentDir\<rparr>))
            else (None, w)) of
        (Some e, w1) \<Rightarrow> (Some e, w1)
      | (None, w1) \<Rightarrow>
          if parent w1 = ParentFile then (Some (OSError ''Not a directory''), w1)
          else (case fails env Mkstemp of
                  Some e \<Rightarrow> (Some e, w1)
                | None \<Rightarrow> (None, w1\<lparr>temp_zip := Some (Other [])\<rparr>)))"

text \<open>
  The \<open>with zipfile.ZipFile(...)\<close> block: the exception that leaves it, if any, and what
  the temporary file holds afterwards. The archive is closed when the block is left,
  also by an exception, and an exception of the closing replaces the one under way.
\<close>

definition build_zip :: "backend_env \<Rightarrow> node \<Rightarrow> error option \<times> file_content" where
  "build_zip env t =
     (case fails env ZipOpen of
        Some e \<Rightarrow> (Some e, Other [])
      | None \<Rightarrow>
          (case zip_tree env [] t [] of
             (r, zf) \<Rightarrow>
               (case fails env ZipClose of
                  Some e \<Rightarrow> (Some e, Zip zf)
                | None \<Rightarrow> (r, Zip zf))))"

text \<open>The handler \<open>except Exception\<close>: \<open>os.remove\<close> when the file exists, and \<open>raise\<close>.\<close>

definition cleanup :: "error \<Rightarrow> world \<Rightarrow> error option \<times> world" where
  "cleanup e w = (Some e, (if temp_zip w \<noteq> None then w\<lparr>temp_zip := None\<rparr> else w))"

text \<open>
  The body of the \<open>if\<close> in \<open>close\<close>: the result is the exception that leaves it, if
  any, and the world.
\<close>

definition save_archive :: "backend_env \<Rightarrow> world \<Rightarrow> node \<Rightarrow> error option \<times> world" where
  "save_archive env w t =
     (case prepare env w of
        (Some e, w1) \<Rightarrow> (Some e, w1)
      | (None, w1) \<Rightarrow>
          (case build_zip env t of
             (Some e, c) \<Rightarrow> cleanup e (w1\<lparr>temp_zip := Some c\<rparr>)
           | (None, c) \<Rightarrow>
               (let w2 = w1\<lparr>temp_zip := Some c\<rparr> in
                case fails env Move of
                  Some e \<Rightarrow> cleanup e w2
                | None \<Rightarrow> (None, w2\<lparr>target := temp_zip w2, temp_zip := None\<rparr>))))"

text \<open>
  \<open>close\<close>: the \<open>try\<close> block, then the \<open>finally\<close> block, which deletes the working
  directory with \<open>ignore_errors=True\<close>; the exception of the \<open>try\<close> block, if any, leaves
  \<open>close\<close> after it.
\<close>

definition backend_close ::
  "backend_env \<Rightarrow> world \<Rightarrow> ZipHandle \<Rightarrow> bool \<Rightarrow> error option \<times> world" where
  "backend_close env w handle save =
     (let td = temp_dir handle;
          tried = (case temp_dirs w td of
                     Some t \<Rightarrow>
                       if save \<and> mode handle = RW then save_archive env w t else (None, w)
                   | None \<Rightarrow> (None, w));
          w' = snd tried
      in (fst tried,
          (case temp_dirs w' td of
             Some t \<Rightarrow> w'\<lparr>temp_dirs := (temp_dirs w')(td := rmtree_left env t)\<rparr>
           | None \<Rightarrow> w')))"

subsection \<open>What a directory tree and an archive hold\<close>

text \<open>
  \<open>at_path t ps x\<close>: following the names \<open>ps\<close> from \<open>t\<close> leads to the node \<open>x\<close>.
  \<open>has_file t\<close>: some entry that is not a directory lies in or beneath \<open>t\<close>.
  \<open>wf_node t\<close>: the names in every directory are distinct, non-empty and free of slashes.
\<close>

inductive at_path :: "node \<Rightarrow> string list \<Rightarrow> node \<Rightarrow> bool" where
  here: "at_path t [] t"
| below: "(n, k) \<in> set kids \<Longrightarrow> at_path k ps x \<Longrightarrow> at_path (Dir kids) (n # ps) x"

fun has_file :: "node \<Rightarrow> bool" where
  "has_file (File b) = True"
| "has_file NoRead = True"
| "has_file (Dir kids) = (\<exists>nk \<in> set kids. has_file (snd nk))"

definition valid_name :: "string \<Rightarrow> bool" where
  "valid_name n = (n \<noteq> [] \<and> CHR ''/'' \<notin> set n)"

fun wf_node :: "node \<Rightarrow> bool" where
  "wf_node (Dir kids) =
     (distinct (map fst kids) \<and> (\<forall>nk \<in> set kids. valid_name (fst nk) \<and> wf_node (snd nk)))"
| "wf_node t = True"

definition startswith :: "string \<Rightarrow> string \<Rightarrow> bool" where
  "startswith s pre = (take (length pre) s = pre)"

text \<open>
  The entries of a tree, named as an archive names them (a directory with a trailing
  slash), with the bytes of the files; and the same view of an archive.
\<close>

fun listing :: "string list \<Rightarrow> node \<Rightarrow> (string \<times> bytes option) list"
  and listing_kids :: "string list \<Rightarrow> (string \<times> node) list \<Rightarrow> (string \<times> bytes option) list" where
  "listing root (File b) = [(join_str ''/'' root, Some b)]"
| "listing root NoRead = [(join_str ''/'' root, None)]"
| "listing root (Dir kids) =
     (if root = [] then [] else [(join_str ''/'' root @ ''/'', None)]) @ listing_kids root kids"
| "listing_kids root [] = []"
| "listing_kids root ((n, k) # rest) = listing (root @ [n]) k @ listing_kids root rest"


section \<open>Concrete inputs\<close>

text \<open>
  A small environment for the examples: the current directory is \<open>/r\<close>; a relative path
  resolves below it, an absolute one to itself; \<open>Path(a) / b\<close> is \<open>a\<close> for an empty \<open>b\<close>
  and \<open>a/b\<close> otherwise.
\<close>

definition resolve_r :: "string \<Rightarrow> error + string" where
  "resolve_r p = (if p = [] then Inr ''/r'' else if hd p = CHR ''/'' then Inr p else Inr (''/r/'' @ p))"

definition joinpath_s :: "string \<Rightarrow> string \<Rightarrow> string" where
  "joinpath_s a b = (if b = [] then a else a @ ''/'' @ b)"

definition env0 :: os_env where
  "env0 = \<lparr>resolve = resolve_r, joinpath = joinpath_s, is_dir = (\<lambda>p. False),
     is_symlink = (\<lambda>p. False), iterdir = (\<lambda>p. Inl (OSError p)),
     relative_to = (\<lambda>p q. Inl (OSError p)),
     os_walk = (\<lambda>t topdown onerror followlinks ed. [])\<rparr>"

definition handle_a :: ZipHandle where
  "handle_a = \<lparr>path = ''/r/a.zip'', temp_dir = ''/tmp/z_lib_a'', mode = RW\<rparr>"

definition handle_b :: ZipHandle where
  "handle_b = \<lparr>path = ''/tmp/z_lib_a/b.zip'', temp_dir = ''/tmp/z_lib_b'', mode = RW\<rparr>"

definition zips_ab :: registry where
  "zips_ab = [(''a.zip'', handle_a), (''a.zip/b.zip'', handle_b)]"

text \<open>
  The same two archives registered under their absolute paths, and a registry that
  mixes a relative key with an absolute one.
\<close>

definition zips_abs :: registry where
  "zips_abs = [(''/r/a.zip'', handle_a), (''/r/a.zip/b.zip'', handle_b)]"

definition zips_mixed :: registry where
  "zips_mixed = [(''a.zip'', handle_a), (''/r/a.zip/b.zip'', handle_b)]"


text \<open>
  A directory tree for the walk. \<open>/r/top\<close> holds the directory \<open>d\<close> (with the file
  \<open>f\<close>), the link \<open>link\<close> to \<open>/r/top/d\<close> and the archive \<open>pack.zip\<close>, which is loaded
  with the working directory \<open>/tmp/z_lib_p\<close>; that one holds \<open>x.txt\<close> and the
  directory \<open>sub\<close> with \<open>y.txt\<close>. \<open>os_walk_p\<close> is \<open>os.walk\<close> on the working directory.
\<close>

definition resolve_w :: "string \<Rightarrow> error + string" where
  "resolve_w p =
     (let q = (if p = [] then ''/r'' else if hd p = CHR ''/'' then p else ''/r/'' @ p)
      in if q = ''/r/top/link'' then Inr ''/r/top/d'' else Inr q)"

definition iterdir_w :: "string \<Rightarrow> error + string list" where
  "iterdir_w p =
     (if p = ''/r/top'' then Inr [''d'', ''link'', ''pack.zip'']
      else if p = ''/r/top/d'' then Inr [''f'']
      else Inl (OSError p))"

definition relative_to_w :: "string \<Rightarrow> string \<Rightarrow> error + string" where
  "relative_to_w p q =
     (if p = q then Inr ''.''
      else if take (Suc (length q)) p = q @ ''/'' then Inr (drop (Suc (length q)) p)
      else Inl (OSError p))"

definition os_walk_p :: "string \<Rightarrow> bool \<Rightarrow> bool \<Rightarrow> bool \<Rightarrow> edit \<Rightarrow> event list" where
  "os_walk_p t topdown onerror followlinks ed =
     (if t = ''/tmp/z_lib_p''
      then (if topdown
            then Yield t [''sub''] [''x.txt''] #
                 (if ''sub'' \<in> set (ed t [''sub''] [''x.txt''])
                  then [Yield (t @ ''/sub'') [] [''y.txt'']] else [])
            else [Yield (t @ ''/sub'') [] [''y.txt''], Yield t [''sub''] [''x.txt'']])
      else [])"

definition env_w :: os_env where
  "env_w = \<lparr>resolve = resolve_w, joinpath = joinpath_s,
     is_dir = (\<lambda>p. p = ''/r/top'' \<or> p = ''/r/top/d'' \<or> p = ''/r/top/link''),
     is_symlink = (\<lambda>p. p = ''/r/top/link''),
     iterdir = iterdir_w, relative_to = relative_to_w, os_walk = os_walk_p\<rparr>"

definition handle_p :: ZipHandle where
  "handle_p = \<lparr>path = ''/r/top/pack.zip'', temp_dir = ''/tmp/z_lib_p'', mode = RW\<rparr>"

definition zips_p :: registry where
  "zips_p = [(''/r/top/pack.zip'', handle_p)]"

text \<open>Two consumers: one leaves the yielded list alone, one empties it.\<close>

definition keep_all :: edit where
  "keep_all v dirs files = dirs"

definition prune_all :: edit where
  "prune_all v dirs files = []"

text \<open>
  A fragment of the two code pages, enough for the examples: both are the identity on
  ASCII; the bytes \<open>93 FA 96 7B\<close> are four characters in CP437 and two in CP932; the
  byte \<open>93\<close> alone is one character in CP437 and an incomplete sequence in CP932.
\<close>

definition name_cp437 :: string where
  "name_cp437 = [CHR 0xC3, CHR 0xB4, CHR 0xC2, CHR 0xB7, CHR 0xC3, CHR 0xBB, CHR 0x7B]"

definition name_cp932 :: string where
  "name_cp932 = [CHR 0xE6, CHR 0x97, CHR 0xA5, CHR 0xE6, CHR 0x9C, CHR 0xAC]"

definition cp437_sample :: "string \<Rightarrow> bytes option" where
  "cp437_sample s =
     (if \<forall>c \<in> set s. (of_char c :: nat) < 128 then Some (map of_char s)
      else if s = name_cp437 then Some [0x93, 0xFA, 0x96, 0x7B]
      else if s = [CHR 0xC3, CHR 0xB4] then Some [0x93]
      else None)"

definition cp932_sample :: "bytes \<Rightarrow> string option" where
  "cp932_sample b =
     (if \<forall>x \<in> set b. unat x < 128 then Some (map (\<lambda>x. char_of (unat x)) b)
      else if b = [0x93, 0xFA, 0x96, 0x7B] then Some name_cp932
      else None)"

text \<open>
  Three environments of the backend: in \<open>env_b\<close> every library call succeeds; in
  \<open>env_stuck\<close> \<open>shutil.rmtree\<close> deletes nothing; in \<open>env_full\<close> the closing of a written
  archive fails.
\<close>

definition mkdtemp_b :: "(string \<Rightarrow> node option) \<Rightarrow> string" where
  "mkdtemp_b tds = (if tds ''/tmp/z_lib_1'' = None then ''/tmp/z_lib_1'' else ''/tmp/z_lib_2'')"

definition env_b :: backend_env where
  "env_b = \<lparr>resolve = resolve_r, joinpath = joinpath_s, is_dir = (\<lambda>p. False),
     is_symlink = (\<lambda>p. False), iterdir = (\<lambda>p. Inl (OSError p)),
     relative_to = (\<lambda>p q. Inl (OSError p)),
     os_walk = (\<lambda>t topdown onerror followlinks ed. []),
     cp437_encode = cp437_sample, cp932_decode = cp932_sample,
     mkdtemp = mkdtemp_b, rmtree_left = (\<lambda>t. None), fails = (\<lambda>c. None)\<rparr>"

definition env_stuck :: backend_env where
  "env_stuck = env_b\<lparr>rmtree_left := (\<lambda>t. Some t)\<rparr>"

definition env_full :: backend_env where
  "env_full =
     env_b\<lparr>fails := (\<lambda>c. if c = ZipClose then Some (OSError ''No space left on device'')
                         else None)\<rparr>"

text \<open>
  The archive with the entries \<open>A\<close>, \<open>B/\<close> and \<open>B/C\<close>, and a world that holds it. In
  the second world a directory \<open>/tmp/z_lib_9\<close> is the working directory of the handle
  \<open>handle_9\<close>; it holds a file, an empty directory \<open>E\<close> (with an empty directory in it)
  and, below \<open>D\<close>, an entry that cannot be read.
\<close>

definition zip_abc :: archive where
  "zip_abc = [(\<lparr>filename = ''A'', flag_bits = 0\<rparr>, [0x61]),
              (\<lparr>filename = ''B/'', flag_bits = 0\<rparr>, []),
              (\<lparr>filename = ''B/C'', flag_bits = 0x800\<rparr>, [0x63, 0x0A])]"


definition tree_ok :: node where
  "tree_ok = Dir [(''E'', Dir [(''F'', Dir [])]), (''a.txt'', File [0x61]),
                  (''D'', Dir [(''b.txt'', File [0x62])])]"

definition tree_bad :: node where
  "tree_bad = Dir [(''a.txt'', File [0x61]), (''D'', Dir [(''gone'', NoRead)])]"

definition world_9 :: "node \<Rightarrow> world" where
  "world_9 t = \<lparr>target = Some (Zip zip_abc), parent = ParentDir, temp_zip = None,
     temp_dirs = (\<lambda>p. if p = ''/tmp/z_lib_9'' then Some t else None), outside = []\<rparr>"

definition handle_9 :: ZipHandle where
  "handle_9 = \<lparr>path = ''/r/a.zip'', temp_dir = ''/tmp/z_lib_9'', mode = RW\<rparr>"

section \<open>Properties of the path resolver\<close>

lemma match_exact_longest:
  "0 < i \<Longrightarrow> i \<le> n \<Longrightarrow> map_of zips (join_str ''/'' (take i parts)) = Some h \<Longrightarrow>
   (\<forall>j. i < j \<and> j \<le> n \<longrightarrow> map_of zips (join_str ''/'' (take j parts)) = None) \<Longrightarrow>
   match_exact zips parts n = Some (h, join_str ''/'' (drop i parts))"
proof (induction n)
  case 0
  then show ?case by simp
next
  case (Suc n)
  show ?case
  proof (cases "i = Suc n")
    case True
    with Suc.prems show ?thesis by simp
  next
    case False
    with Suc.prems have le: "i \<le> n"
      and none: "map_of zips (join_str ''/'' (take (Suc n) parts)) = None"
      by auto
    from Suc.prems
    have "\<forall>j. i < j \<and> j \<le> n \<longrightarrow> map_of zips (join_str ''/'' (take j parts)) = None"
      by auto
    with Suc.IH Suc.prems le
    have "match_exact zips parts n = Some (h, join_str ''/'' (drop i parts))"
      by blast
    with none show ?thesis by simp
  qed
qed

lemma match_exact_none:
  "(\<forall>j. 0 < j \<and> j \<le> n \<longrightarrow> map_of zips (join_str ''/'' (take j parts)) = None) \<Longrightarrow>
   match_exact zips parts n = None"
  by (induction n) auto

lemma match_resolved_step:
  "match_resolved env zips parts (Suc i) =
     (case resolved_key env zips (join_str ''/'' (take (Suc i) parts)) of
        Some handle \<Rightarrow> Some (handle, join_str ''/'' (drop (Suc i) parts))
      | None \<Rightarrow> match_resolved env zips parts i)"
  by (simp add: resolved_key_def split: sum.splits option.splits)

lemma match_resolved_longest:
  "0 < i \<Longrightarrow> i \<le> n \<Longrightarrow> resolved_key env zips (join_str ''/'' (take i parts)) = Some h \<Longrightarrow>
   (\<forall>j. i < j \<and> j \<le> n \<longrightarrow> resolved_key env zips (join_str ''/'' (take j parts)) = None) \<Longrightarrow>
   match_resolved env zips parts n = Some (h, join_str ''/'' (drop i parts))"
proof (induction n)
  case 0
  then show ?case by simp
next
  case (Suc n)
  show ?case
  proof (cases "i = Suc n")
    case True
    with Suc.prems show ?thesis by (simp only: match_resolved_step) simp
  next
    case False
    with Suc.prems have le: "i \<le> n"
      and none: "resolved_key env zips (join_str ''/'' (take (Suc n) parts)) = None"
      by auto
    from Suc.prems
    have "\<forall>j. i < j \<and> j \<le> n \<longrightarrow> resolved_key env zips (join_str ''/'' (take j parts)) = None"
      by auto
    with Suc.IH Suc.prems le
    have "match_resolved env zips parts n = Some (h, join_str ''/'' (drop i parts))"
      by blast
    with none show ?thesis by (simp only: match_resolved_step) simp
  qed
qed

lemma match_resolved_none:
  "(\<forall>j. 0 < j \<and> j \<le> n \<longrightarrow> resolved_key env zips (join_str ''/'' (take j parts)) = None) \<Longrightarrow>
   match_resolved env zips parts n = None"
proof (induction n)
  case 0
  then show ?case by simp
next
  case (Suc n)
  then have "resolved_key env zips (join_str ''/'' (take (Suc n) parts)) = None"
    and "match_resolved env zips parts n = None"
    by auto
  then show ?case by (simp only: match_resolved_step) simp
qed

text \<open>
  C4 (counterexample). The specification lets the longest matching prefix win. With
  the key \<open>a.zip\<close> and the key \<open>/r/a.zip/b.zip\<close>, which is the resolved path of the
  prefix \<open>a.zip/b.zip\<close>, the path \<open>a.zip/b.zip/x.txt\<close> gives the handle of the shorter
  prefix \<open>a.zip\<close>: the first loop finds it before the second loop runs.
\<close>

theorem find_longest_match_counterexample:
  "find_longest_match_handle env0 ''a.zip/b.zip/x.txt'' zips_mixed =
     (Some handle_a, ''b.zip/x.txt'')
   \<and> resolved_key env0 zips_mixed ''a.zip/b.zip'' = Some handle_b
   \<and> handle_a \<noteq> handle_b"
  by code_simp

text \<open>
  C4 (what the code does). \<open>find_longest_match_handle\<close> goes through the prefixes of
  the path from the longest to the shortest twice. When some prefix is itself a
  registry key, the longest such prefix wins. When none is, the longest prefix whose
  normalized resolved path is a registry key wins (a prefix whose resolution raises
  is passed over). In both cases the remaining components, joined, are the internal
  path. When no prefix matches in either way the result is no handle and the path
  itself. With the keys \<open>a.zip\<close> and \<open>a.zip/b.zip\<close> registered, the path
  \<open>a.zip/b.zip/x.txt\<close> gives the handle of \<open>a.zip/b.zip\<close> and the internal path
  \<open>x.txt\<close> (the example that follows).
\<close>

theorem find_longest_match_two_passes:
  assumes "parts = split_str CHR ''/'' (normalize_path p)"
  shows "(0 < i \<and> i \<le> length parts \<and>
          map_of zips (join_str ''/'' (take i parts)) = Some h \<and>
          (\<forall>j. i < j \<and> j \<le> length parts \<longrightarrow>
             map_of zips (join_str ''/'' (take j parts)) = None) \<longrightarrow>
            find_longest_match_handle env p zips = (Some h, join_str ''/'' (drop i parts)))
       \<and> ((\<forall>j. 0 < j \<and> j \<le> length parts \<longrightarrow>
             map_of zips (join_str ''/'' (take j parts)) = None) \<and>
          0 < i \<and> i \<le> length parts \<and>
          resolved_key env zips (join_str ''/'' (take i parts)) = Some h \<and>
          (\<forall>j. i < j \<and> j \<le> length parts \<longrightarrow>
             resolved_key env zips (join_str ''/'' (take j parts)) = None) \<longrightarrow>
            find_longest_match_handle env p zips = (Some h, join_str ''/'' (drop i parts)))
       \<and> ((\<forall>j. 0 < j \<and> j \<le> length parts \<longrightarrow>
             map_of zips (join_str ''/'' (take j parts)) = None \<and>
             resolved_key env zips (join_str ''/'' (take j parts)) = None) \<longrightarrow>
            find_longest_match_handle env p zips = (None, p))"
proof (intro conjI impI)
  assume "0 < i \<and> i \<le> length parts \<and>
          map_of zips (join_str ''/'' (take i parts)) = Some h \<and>
          (\<forall>j. i < j \<and> j \<le> length parts \<longrightarrow>
             map_of zips (join_str ''/'' (take j parts)) = None)"
  then have "match_exact zips parts (length parts) = Some (h, join_str ''/'' (drop i parts))"
    using match_exact_longest by blast
  with assms show "find_longest_match_handle env p zips = (Some h, join_str ''/'' (drop i parts))"
    by (simp add: find_longest_match_handle_def Let_def)
next
  assume a: "(\<forall>j. 0 < j \<and> j \<le> length parts \<longrightarrow>
             map_of zips (join_str ''/'' (take j parts)) = None) \<and>
          0 < i \<and> i \<le> length parts \<and>
          resolved_key env zips (join_str ''/'' (take i parts)) = Some h \<and>
          (\<forall>j. i < j \<and> j \<le> length parts \<longrightarrow>
             resolved_key env zips (join_str ''/'' (take j parts)) = None)"
  then have "match_exact zips parts (length parts) = None"
    using match_exact_none by blast
  moreover from a
  have "match_resolved env zips parts (length parts) = Some (h, join_str ''/'' (drop i parts))"
    using match_resolved_longest by blast
  ultimately
  show "find_longest_match_handle env p zips = (Some h, join_str ''/'' (drop i parts))"
    using assms by (simp add: find_longest_match_handle_def Let_def)
next
  assume a: "\<forall>j. 0 < j \<and> j \<le> length parts \<longrightarrow>
             map_of zips (join_str ''/'' (take j parts)) = None \<and>
             resolved_key env zips (join_str ''/'' (take j parts)) = None"
  then have "match_exact zips parts (length parts) = None"
    using match_exact_none by blast
  moreover from a have "match_resolved env zips parts (length parts) = None"
    using match_resolved_none by blast
  ultimately show "find_longest_match_handle env p zips = (None, p)"
    using assms by (simp add: find_longest_match_handle_def Let_def)
qed

lemma example_range:
  "0 < j \<and> j \<le> length [''a.zip'', ''b.zip'', ''x.txt''] \<Longrightarrow> j = 1 \<or> j = 2 \<or> j = 3"
  "2 < j \<and> j \<le> length [''a.zip'', ''b.zip'', ''x.txt''] \<Longrightarrow> j = 3"
  by auto

theorem find_longest_match_two_passes_witness:
  "find_longest_match_handle env0 ''a.zip/b.zip/x.txt'' zips_ab = (Some handle_b, ''x.txt'')
   \<and> find_longest_match_handle env0 ''a.zip/b.zip/x.txt'' zips_abs = (Some handle_b, ''x.txt'')
   \<and> find_longest_match_handle env0 ''a.zip/b.zip/x.txt'' [] = (None, ''a.zip/b.zip/x.txt'')"
proof -
  let ?ps = "[''a.zip'', ''b.zip'', ''x.txt'']"
  have a: "?ps = split_str CHR ''/'' (normalize_path ''a.zip/b.zip/x.txt'')"
    by (simp add: normalize_path_def)
  have k2: "map_of zips_ab (join_str ''/'' (take 2 ?ps)) = Some handle_b"
    and k3: "map_of zips_ab (join_str ''/'' (take 3 ?ps)) = None"
    and m1: "map_of zips_abs (join_str ''/'' (take 1 ?ps)) = None"
    and m2: "map_of zips_abs (join_str ''/'' (take 2 ?ps)) = None"
    and m3: "map_of zips_abs (join_str ''/'' (take 3 ?ps)) = None"
    and r2: "resolved_key env0 zips_abs (join_str ''/'' (take 2 ?ps)) = Some handle_b"
    and r3: "resolved_key env0 zips_abs (join_str ''/'' (take 3 ?ps)) = None"
    and d2: "join_str ''/'' (drop 2 ?ps) = ''x.txt''"
    by code_simp+
  have exact: "0 < (2::nat) \<and> 2 \<le> length ?ps \<and>
      map_of zips_ab (join_str ''/'' (take 2 ?ps)) = Some handle_b \<and>
      (\<forall>j. 2 < j \<and> j \<le> length ?ps \<longrightarrow> map_of zips_ab (join_str ''/'' (take j ?ps)) = None)"
    using k2 k3 example_range(2) by auto
  have all_m: "\<forall>j. 0 < j \<and> j \<le> length ?ps \<longrightarrow>
         map_of zips_abs (join_str ''/'' (take j ?ps)) = None"
  proof (intro allI impI)
    fix j :: nat
    assume "0 < j \<and> j \<le> length ?ps"
    from example_range(1) [OF this] m1 m2 m3
    show "map_of zips_abs (join_str ''/'' (take j ?ps)) = None" by auto
  qed
  have all_r: "\<forall>j. 2 < j \<and> j \<le> length ?ps \<longrightarrow>
         resolved_key env0 zips_abs (join_str ''/'' (take j ?ps)) = None"
  proof (intro allI impI)
    fix j :: nat
    assume "2 < j \<and> j \<le> length ?ps"
    from example_range(2) [OF this] r3
    show "resolved_key env0 zips_abs (join_str ''/'' (take j ?ps)) = None" by simp
  qed
  have res: "(\<forall>j. 0 < j \<and> j \<le> length ?ps \<longrightarrow>
         map_of zips_abs (join_str ''/'' (take j ?ps)) = None) \<and>
      0 < (2::nat) \<and> 2 \<le> length ?ps \<and>
      resolved_key env0 zips_abs (join_str ''/'' (take 2 ?ps)) = Some handle_b \<and>
      (\<forall>j. 2 < j \<and> j \<le> length ?ps \<longrightarrow>
         resolved_key env0 zips_abs (join_str ''/'' (take j ?ps)) = None)"
    using all_m all_r r2 by simp
  have none: "\<forall>j. 0 < j \<and> j \<le> length ?ps \<longrightarrow>
         map_of [] (join_str ''/'' (take j ?ps)) = None \<and>
         resolved_key env0 [] (join_str ''/'' (take j ?ps)) = None"
    by (simp add: resolved_key_def split: sum.splits)
  note t = find_longest_match_two_passes [OF a]
  have c1: "find_longest_match_handle env0 ''a.zip/b.zip/x.txt'' zips_ab =
      (Some handle_b, join_str ''/'' (drop 2 ?ps))"
    by (rule t [THEN conjunct1, THEN mp, OF exact])
  have c2: "find_longest_match_handle env0 ''a.zip/b.zip/x.txt'' zips_abs =
      (Some handle_b, join_str ''/'' (drop 2 ?ps))"
    by (rule t [THEN conjunct2, THEN conjunct1, THEN mp, OF res])
  have c3: "find_longest_match_handle env0 ''a.zip/b.zip/x.txt'' [] =
      (None, ''a.zip/b.zip/x.txt'')"
    by (rule t [THEN conjunct2, THEN conjunct2, THEN mp, OF none])
  from c1 [unfolded d2] c2 [unfolded d2] c3 show ?thesis by (intro conjI)
qed

lemma split_zip_loop_first:
  "i < length rest \<Longrightarrow> endswith (lower (rest ! i)) ''.zip'' \<Longrightarrow>
   (\<forall>j<i. \<not> endswith (lower (rest ! j)) ''.zip'') \<Longrightarrow>
   split_zip_loop done rest =
     Some (join_str ''/'' (done @ take (Suc i) rest), join_str ''/'' (drop (Suc i) rest))"
proof (induction rest arbitrary: "done" i)
  case Nil
  then show ?case by simp
next
  case (Cons part rest)
  show ?case
  proof (cases i)
    case 0
    with Cons.prems show ?thesis by simp
  next
    case (Suc k)
    with Cons.prems have k: "k < length rest" "endswith (lower (rest ! k)) ''.zip''"
      and first: "\<not> endswith (lower part) ''.zip''"
      and before: "\<forall>j<k. \<not> endswith (lower (rest ! j)) ''.zip''"
      by auto
    from Cons.IH [OF k before, of "done @ [part]"] first Suc show ?thesis by simp
  qed
qed

lemma split_zip_loop_none:
  "(\<forall>part \<in> set rest. \<not> endswith (lower part) ''.zip'') \<Longrightarrow> split_zip_loop done rest = None"
  by (induction rest arbitrary: "done") auto

text \<open>
  C5. For a path that no registry key matches: when some component of the normalized
  path ends in \<open>.zip\<close> (in any letter case), \<open>resolve_to_real_path\<close> fails with
  \<open>ZipNotLoadedError\<close>, whose message names the prefix up to the first such component,
  and this is not the not-found error; when no component does, the result is
  \<open>Path(path).resolve()\<close>, the absolute physical path.
\<close>

theorem resolve_unmatched:
  assumes "find_longest_match_handle env p zips = (None, r)"
    and "parts = split_str CHR ''/'' (normalize_path p)"
  shows "(i < length parts \<and> endswith (lower (parts ! i)) ''.zip'' \<and>
          (\<forall>j<i. \<not> endswith (lower (parts ! j)) ''.zip'') \<longrightarrow>
            resolve_to_real_path env p zips =
              Inl (ZipNotLoadedError
                     (not_loaded_message (join_str ''/'' (take (Suc i) parts)) p)) \<and>
            resolve_to_real_path env p zips \<noteq> Inl (FileNotFoundError m))
       \<and> ((\<forall>part \<in> set parts. \<not> endswith (lower part) ''.zip'') \<longrightarrow>
            resolve_to_real_path env p zips = resolve env p)"
proof (intro conjI impI)
  assume h: "i < length parts \<and> endswith (lower (parts ! i)) ''.zip'' \<and>
          (\<forall>j<i. \<not> endswith (lower (parts ! j)) ''.zip'')"
  then have "split_zip_loop [] parts =
     Some (join_str ''/'' ([] @ take (Suc i) parts), join_str ''/'' (drop (Suc i) parts))"
    using split_zip_loop_first by blast
  with assms show "resolve_to_real_path env p zips =
      Inl (ZipNotLoadedError (not_loaded_message (join_str ''/'' (take (Suc i) parts)) p))"
    by (simp add: resolve_to_real_path_def split_zip_path_def)
  then show "resolve_to_real_path env p zips \<noteq> Inl (FileNotFoundError m)" by simp
next
  assume "\<forall>part \<in> set parts. \<not> endswith (lower part) ''.zip''"
  then have "split_zip_loop [] parts = None" by (rule split_zip_loop_none)
  with assms show "resolve_to_real_path env p zips = resolve env p"
    by (simp add: resolve_to_real_path_def split_zip_path_def)
qed

lemma endswith_zip_examples:
  "endswith (lower ''missing.zip'') ''.zip''" "\<not> endswith (lower ''docs'') ''.zip''"
  "\<not> endswith (lower ''x.txt'') ''.zip''"
  by (simp_all add: endswith_def lower_def lower_char_def)

theorem resolve_unmatched_witness:
  "resolve_to_real_path env0 ''missing.zip/x'' [] =
     Inl (ZipNotLoadedError (not_loaded_message ''missing.zip'' ''missing.zip/x''))
   \<and> resolve_to_real_path env0 ''docs/x.txt'' [] = Inr ''/r/docs/x.txt''"
proof -
  have m: "find_longest_match_handle env0 ''missing.zip/x'' [] = (None, ''missing.zip/x'')"
    by (simp add: find_longest_match_handle_def normalize_path_def env0_def resolve_r_def)
  have pm: "[''missing.zip'', ''x''] = split_str CHR ''/'' (normalize_path ''missing.zip/x'')"
    by (simp add: normalize_path_def)
  have d: "find_longest_match_handle env0 ''docs/x.txt'' [] = (None, ''docs/x.txt'')"
    by (simp add: find_longest_match_handle_def normalize_path_def env0_def resolve_r_def)
  have pd: "[''docs'', ''x.txt''] = split_str CHR ''/'' (normalize_path ''docs/x.txt'')"
    by (simp add: normalize_path_def)
  have rd: "resolve env0 ''docs/x.txt'' = Inr ''/r/docs/x.txt''"
    by (simp add: env0_def resolve_r_def)
  from resolve_unmatched [OF m pm, of 0] resolve_unmatched [OF d pd] rd
    endswith_zip_examples
  show ?thesis by simp
qed

section \<open>Properties of the walk\<close>

lemma then_walk_Nil_right: "then_walk a (Some []) = a"
  by (cases a) (simp_all add: then_walk_def)


lemma classify_example:
  "classify env_w zips_p False ''/r/top'' [''d'', ''link'', ''pack.zip''] ([], [], []) =
     Inr ([''d''], [''pack.zip''], [''link''])"
  by code_simp

text \<open>
  C1. The consumer of a top-down walk of \<open>top\<close> empties every yielded list of
  subdirectories. The walk of the real directory nevertheless enters the ordinary
  subdirectory \<open>top/d\<close> and the mount point \<open>/r/top/pack.zip\<close>: its loops read
  \<open>sub_dirs\<close> and \<open>zip_entries\<close>, not the yielded list. Inside the archive the
  pruning works (\<open>sub\<close> is not visited), since there the yielded list is the one
  \<open>os.walk\<close> reads.
\<close>

theorem walk_ignores_pruning:
  "walk 3 env_w zips_p prune_all ''top'' True False False =
     Some [Enter ''top'', Yield ''top'' [''d'', ''pack.zip''] [''link''],
           Enter ''top/d'', Yield ''top/d'' [] [''f''],
           Enter ''/r/top/pack.zip'', Yield ''/r/top/pack.zip'' [''sub''] [''x.txt'']]"
  by code_simp

text \<open>
  C7 (counterexample). The specification forms every child path as \<open>v + "/" + name\<close>.
  Walking the relative path \<open>top\<close>, the mount point \<open>pack.zip\<close> is
  entered under its resolved absolute path \<open>/r/top/pack.zip\<close>, not under
  \<open>top/pack.zip\<close>.
\<close>

theorem walk_mount_child_counterexample:
  "walk 3 env_w zips_p keep_all ''top'' True False False =
     Some [Enter ''top'', Yield ''top'' [''d'', ''pack.zip''] [''link''],
           Enter ''top/d'', Yield ''top/d'' [] [''f''],
           Enter ''/r/top/pack.zip'', Yield ''/r/top/pack.zip'' [''sub''] [''x.txt''],
           Yield ''/r/top/pack.zip/sub'' [] [''y.txt'']]
   \<and> ''top'' @ ''/'' @ ''pack.zip'' \<noteq> ''/r/top/pack.zip''"
  by code_simp

text \<open>
  C7 (what the code does). In a top-down walk of a real directory \<open>v\<close> the tuple
  \<open>(v, sub_dirs + zip_entries, sub_files)\<close> is yielded first; then the walk recurses into
  each ordinary subdirectory \<open>d\<close> with the child path \<open>v + "/" + d\<close>, and then into each
  mount point \<open>zname\<close> with the child path \<open>normalize_path(str((real_top / zname).resolve()))\<close>,
  the resolved absolute path of the entry.
\<close>

theorem walk_topdown_children:
  assumes "find_longest_match_handle env v zips = (None, r)"
    and "resolve env v = Inr real_top"
    and "is_dir env real_top"
    and "iterdir env real_top = Inr entries"
    and "classify env zips fl real_top entries ([], [], []) = Inr (sd, ze, sf)"
  shows "walk_recursive (Suc n) env zips ed v True onerr fl =
     then_walk (Some [Enter v, Yield v (sd @ ze) sf])
       (then_walk
          (walk_each (\<lambda>d. walk_recursive n env zips ed (v @ ''/'' @ d) True onerr fl) sd)
          (walk_each
             (\<lambda>zname. case resolve env (joinpath env real_top zname) of
                         Inl e \<Rightarrow> Some [Raised e]
                       | Inr p \<Rightarrow> walk_recursive n env zips ed (normalize_path p) True onerr fl)
             ze))"
  using assms by (simp add: consumer_edits_def then_walk_Nil_right)

theorem walk_topdown_children_witness:
  "walk_recursive (Suc 2) env_w zips_p keep_all ''top'' True True False =
     Some [Enter ''top'', Yield ''top'' ([''d''] @ [''pack.zip'']) [''link''],
           Enter ''top/d'', Yield ''top/d'' [] [''f''],
           Enter ''/r/top/pack.zip'', Yield ''/r/top/pack.zip'' [''sub''] [''x.txt''],
           Yield ''/r/top/pack.zip/sub'' [] [''y.txt'']]"
proof -
  have h1: "find_longest_match_handle env_w ''top'' zips_p = (None, ''top'')"
    by code_simp
  have h2: "resolve env_w ''top'' = Inr ''/r/top''"
    by code_simp
  have h3: "is_dir env_w ''/r/top''"
    by code_simp
  have h4: "iterdir env_w ''/r/top'' = Inr [''d'', ''link'', ''pack.zip'']"
    by code_simp
  have rhs: "then_walk (Some [Enter ''top'', Yield ''top'' ([''d''] @ [''pack.zip'']) [''link'']])
       (then_walk
          (walk_each (\<lambda>d. walk_recursive 2 env_w zips_p keep_all (''top'' @ ''/'' @ d)
                             True True False) [''d''])
          (walk_each
             (\<lambda>zname. case resolve env_w (joinpath env_w ''/r/top'' zname) of
                         Inl e \<Rightarrow> Some [Raised e]
                       | Inr p \<Rightarrow> walk_recursive 2 env_w zips_p keep_all (normalize_path p)
                                    True True False)
             [''pack.zip''])) =
     Some [Enter ''top'', Yield ''top'' ([''d''] @ [''pack.zip'']) [''link''],
           Enter ''top/d'', Yield ''top/d'' [] [''f''],
           Enter ''/r/top/pack.zip'', Yield ''/r/top/pack.zip'' [''sub''] [''x.txt''],
           Yield ''/r/top/pack.zip/sub'' [] [''y.txt'']]"
    by code_simp
  from walk_topdown_children [OF h1 h2 h3 h4 classify_example, of 2 keep_all True] rhs
  show ?thesis by (rule trans)
qed




section \<open>Properties of the backend\<close>




text \<open>
  The encoding step is outside the \<open>try\<close> block: a name with the flag unset that CP437
  cannot encode makes \<open>_decode_zip_filename\<close> raise.
\<close>

lemma decode_zip_filename_unencodable:
  "(flag_bits info AND FLAG_UTF8) = 0 \<Longrightarrow> cp437_encode env (filename info) = None \<Longrightarrow>
   decode_zip_filename env info = Inl UnicodeEncodeError"
  by (simp add: decode_zip_filename_def)

text \<open>
  Names with \<open>..\<close> are extracted as the operating system resolves them: \<open>a/../b\<close> makes
  the directory \<open>a\<close> and the file \<open>b\<close>, \<open>../x\<close> is written outside the working
  directory, and \<open>a/..\<close> as a file name fails, being a directory.
\<close>

lemma extract_dotdot_example:
  "extract_with_encoding env_b
     [(\<lparr>filename = ''a/../b'', flag_bits = 0\<rparr>, [0x62]),
      (\<lparr>filename = ''../x'', flag_bits = 0\<rparr>, [0x78]),
      (\<lparr>filename = ''new/../f/../g/'', flag_bits = 0\<rparr>, []),
      (\<lparr>filename = ''q/./r//s'', flag_bits = 0\<rparr>, [0x73]),
      (\<lparr>filename = ''a/..'', flag_bits = 0\<rparr>, [0x61])]
     (Dir [], []) =
   (Some (OSError ''Is a directory''),
    (Dir [(''a'', Dir []), (''b'', File [0x62]), (''new'', Dir []), (''f'', Dir []),
          (''g'', Dir []), (''q'', Dir [(''r'', Dir [(''s'', File [0x73])])])],
     [(''../x'', Some [0x78])]))"
  by code_simp

text \<open>
  When the parent of the archive path is not a directory, \<open>mkstemp\<close> raises: \<open>close\<close>
  fails, nothing is written, and the working directory is deleted all the same.
\<close>

lemma close_parent_not_directory_example:
  "fst (backend_close env_b ((world_9 tree_ok)\<lparr>parent := ParentFile\<rparr>) handle_9 True) =
     Some (OSError ''Not a directory'')
   \<and> target (snd (backend_close env_b ((world_9 tree_ok)\<lparr>parent := ParentFile\<rparr>) handle_9 True)) =
       Some (Zip zip_abc)
   \<and> temp_dirs (snd (backend_close env_b ((world_9 tree_ok)\<lparr>parent := ParentFile\<rparr>) handle_9 True))
         ''/tmp/z_lib_9'' = None"
  by code_simp

lemma prepare_keeps:
  "target (snd (prepare env w)) = target w"
  "temp_dirs (snd (prepare env w)) = temp_dirs w"
  by (simp_all add: prepare_def split: option.splits)

lemma prepare_ok_temp_zip: "prepare env w = (None, w1) \<Longrightarrow> temp_zip w1 = Some (Other [])"
  by (auto simp: prepare_def split: option.splits if_splits)

lemma save_archive_temp_dirs: "temp_dirs (snd (save_archive env w t)) = temp_dirs w"
proof (cases "prepare env w")
  case (Pair r w1)
  with prepare_keeps(2) [of env w] have "temp_dirs w1 = temp_dirs w" by simp
  with Pair show ?thesis
    by (cases r) (auto simp: save_archive_def cleanup_def Let_def split: prod.splits option.splits)
qed

text \<open>
  C6. When the temporary file has been made and the building of the archive in it
  fails (the opening of the archive, a \<open>zf.write\<close> or the closing) during a read-write
  \<open>close\<close> with \<open>save\<close>, the exception leaves \<open>close\<close>, the temporary file is gone, and
  the file at the archive path is the one that was there before.
\<close>

theorem close_failure_keeps_original:
  assumes "mode h = RW"
    and "temp_dirs w (temp_dir h) = Some t"
    and "prepare env w = (None, w1)"
    and "build_zip env t = (Some e, c)"
  shows "fst (backend_close env w h True) = Some e
       \<and> temp_zip (snd (backend_close env w h True)) = None
       \<and> target (snd (backend_close env w h True)) = target w"
proof -
  from prepare_keeps [of env w] assms(3)
  have k: "target w1 = target w" "temp_dirs w1 = temp_dirs w" by simp_all
  from assms(3,4) have s: "save_archive env w t = (Some e, w1\<lparr>temp_zip := None\<rparr>)"
    by (simp add: save_archive_def cleanup_def)
  from assms(1,2) s k show ?thesis
    by (simp add: backend_close_def Let_def)
qed

theorem close_failure_keeps_original_witness:
  "fst (backend_close env_stuck (world_9 tree_bad) handle_9 True) =
     Some (OSError ''cannot read D/gone'')
   \<and> temp_zip (snd (backend_close env_stuck (world_9 tree_bad) handle_9 True)) = None
   \<and> target (snd (backend_close env_stuck (world_9 tree_bad) handle_9 True)) =
       Some (Zip zip_abc)
   \<and> fst (backend_close env_full (world_9 tree_ok) handle_9 True) =
       Some (OSError ''No space left on device'')
   \<and> temp_zip (snd (backend_close env_full (world_9 tree_ok) handle_9 True)) = None
   \<and> target (snd (backend_close env_full (world_9 tree_ok) handle_9 True)) =
       Some (Zip zip_abc)"
proof -
  have a: "mode handle_9 = RW" by (simp add: handle_9_def)
  have b: "temp_dirs (world_9 t) (temp_dir handle_9) = Some t" for t
    by (simp add: handle_9_def world_9_def)
  have p1: "prepare env_stuck (world_9 tree_bad) =
      (None, (world_9 tree_bad)\<lparr>temp_zip := Some (Other [])\<rparr>)"
    by (simp add: prepare_def world_9_def env_stuck_def env_b_def)
  have c1: "build_zip env_stuck tree_bad =
     (Some (OSError ''cannot read D/gone''), Zip [(written_info [''a.txt''], [0x61])])"
    by (simp add: build_zip_def tree_bad_def env_stuck_def env_b_def)
  have p2: "prepare env_full (world_9 tree_ok) =
      (None, (world_9 tree_ok)\<lparr>temp_zip := Some (Other [])\<rparr>)"
    by (simp add: prepare_def world_9_def env_full_def env_b_def)
  have c2: "build_zip env_full tree_ok =
     (Some (OSError ''No space left on device''),
      Zip [(written_info [''a.txt''], [0x61]), (written_info [''D'', ''b.txt''], [0x62])])"
    by (simp add: build_zip_def tree_ok_def env_full_def env_b_def)
  have d: "target (world_9 t) = Some (Zip zip_abc)" for t
    by (simp add: world_9_def)
  from close_failure_keeps_original [OF a b p1 c1] close_failure_keeps_original [OF a b p2 c2] d
  show ?thesis by simp
qed

text \<open>
  C9. After every \<open>close\<close> the working directory of the handle is what
  \<open>shutil.rmtree(..., ignore_errors=True)\<close> leaves of it (nothing, when the deletion
  meets no error), whatever \<open>save\<close>, the mode and the outcome of the rewrite are; and an
  exception that leaves \<open>close\<close> is always the exception of the rewrite, never one of
  the deletion.
\<close>

theorem close_always_deletes_working_dir:
  "temp_dirs (snd (backend_close env w h save)) (temp_dir h) =
     (case temp_dirs w (temp_dir h) of None \<Rightarrow> None | Some t \<Rightarrow> rmtree_left env t)
   \<and> (fst (backend_close env w h save) = Some e \<longrightarrow>
        save \<and> mode h = RW \<and>
        (\<exists>t. temp_dirs w (temp_dir h) = Some t \<and> fst (save_archive env w t) = Some e))"
  by (auto simp: backend_close_def Let_def save_archive_temp_dirs split: option.splits)

theorem close_always_deletes_working_dir_witness:
  "temp_dirs (snd (backend_close env_b (world_9 tree_ok) handle_9 False)) (temp_dir handle_9) = None
   \<and> temp_dirs (snd (backend_close env_stuck (world_9 tree_bad) handle_9 True)) (temp_dir handle_9) =
       Some tree_bad
   \<and> mode handle_9 = RW
   \<and> (\<exists>t. temp_dirs (world_9 tree_bad) (temp_dir handle_9) = Some t \<and>
           fst (save_archive env_stuck (world_9 tree_bad) t) = Some (OSError ''cannot read D/gone''))"
proof -
  have b: "temp_dirs (world_9 t) (temp_dir handle_9) = Some t" for t
    by (simp add: handle_9_def world_9_def)
  have fail: "fst (backend_close env_stuck (world_9 tree_bad) handle_9 True) =
      Some (OSError ''cannot read D/gone'')"
    by code_simp
  have r1: "rmtree_left env_b tree_ok = None" by (simp add: env_b_def)
  have r2: "rmtree_left env_stuck tree_bad = Some tree_bad" by (simp add: env_stuck_def)
  from close_always_deletes_working_dir [of env_b "world_9 tree_ok" handle_9 False]
    close_always_deletes_working_dir [of env_stuck "world_9 tree_bad" handle_9 True
      "OSError ''cannot read D/gone''"]
    fail b r1 r2
  show ?thesis by simp
qed

lemma split_str_nonempty: "split_str sep s \<noteq> []"
  by (induction s) auto

lemma split_str_append:
  "split_str sep (a @ sep # b) = split_str sep a @ split_str sep b"
proof (induction a)
  case Nil
  show ?case using split_str_nonempty [of sep b] by simp
next
  case (Cons c a)
  then show ?case using split_str_nonempty [of sep a] by (cases "split_str sep a") auto
qed

lemma split_str_no_sep: "sep \<notin> set s \<Longrightarrow> split_str sep s = [s]"
  by (induction s) auto

lemma split_join:
  "ps \<noteq> [] \<Longrightarrow> \<forall>p \<in> set ps. CHR ''/'' \<notin> set p \<Longrightarrow>
   split_str CHR ''/'' (join_str ''/'' ps) = ps"
proof (induction ps)
  case Nil
  then show ?case by simp
next
  case (Cons p ps)
  show ?case
  proof (cases ps)
    case Nil
    with Cons.prems show ?thesis by (simp add: split_str_no_sep)
  next
    case (Cons q qs)
    with Cons.IH Cons.prems have "split_str CHR ''/'' (join_str ''/'' ps) = ps" by simp
    with Cons Cons.prems show ?thesis by (simp add: split_str_append split_str_no_sep)
  qed
qed

lemma at_path_valid:
  "at_path t ps x \<Longrightarrow> wf_node t \<Longrightarrow> (\<forall>p \<in> set ps. valid_name p) \<and> wf_node x"
  by (induction rule: at_path.induct) auto

lemma at_path_det:
  "at_path t ps d \<Longrightarrow> wf_node t \<Longrightarrow> at_path t (ps @ qs) x \<Longrightarrow> at_path d qs x"
proof (induction arbitrary: x rule: at_path.induct)
  case (here t)
  then show ?case by simp
next
  case (below n k kids ps y)
  from below.prems(2) obtain k' where k': "(n, k') \<in> set kids" "at_path k' (ps @ qs) x"
    by (auto elim: at_path.cases)
  from below.prems(1) have "distinct (map fst kids)" by simp
  with below.hyps(1) k'(1) have "k' = k" by (meson eq_key_imp_eq_value)
  moreover from below.prems(1) below.hyps(1) have "wf_node k" by auto
  ultimately show ?case using below.IH k'(2) by simp
qed

lemma at_path_has_file: "at_path d qs x \<Longrightarrow> x = File b \<Longrightarrow> has_file d"
  by (induction rule: at_path.induct) force+

lemma filename_written_info [simp]: "filename (written_info rel) = join_str ''/'' rel"
  by (simp add: written_info_def Let_def)

lemma zip_files_entries:
  "zip_files env root kids acc = (r, zf) \<Longrightarrow> ib \<in> set zf \<Longrightarrow>
   ib \<in> set acc \<or> (\<exists>n b. (n, File b) \<in> set kids \<and> ib = (written_info (root @ [n]), b))"
  by (induction env root kids acc rule: zip_files.induct) (auto split: if_splits option.splits)

lemma zip_files_entries_path:
  assumes "zip_files env root kids acc = (r, zf)" and "ib \<in> set zf"
  shows "ib \<in> set acc \<or>
         (\<exists>ps b. at_path (Dir kids) ps (File b) \<and> ib = (written_info (root @ ps), b))"
proof -
  from zip_files_entries [OF assms]
  consider "ib \<in> set acc"
    | n b where "(n, File b) \<in> set kids" "ib = (written_info (root @ [n]), b)"
    by blast
  then show ?thesis
  proof cases
    case 1
    then show ?thesis by simp
  next
    case 2
    from 2(1) at_path.here have "at_path (Dir kids) [n] (File b)"
      by (rule at_path.below)
    with 2(2) show ?thesis by blast
  qed
qed

lemma at_path_below_ex:
  "(n, k) \<in> set kids \<Longrightarrow> at_path k ps (File b) \<Longrightarrow> ib = (written_info (root @ n # ps), b) \<Longrightarrow>
   \<exists>ps b. at_path (Dir kids) ps (File b) \<and> ib = (written_info (root @ ps), b)"
  by (blast intro: at_path.below)

lemma zip_tree_entries:
  "zip_tree env root t acc = (r, zf) \<Longrightarrow> ib \<in> set zf \<Longrightarrow>
     ib \<in> set acc \<or> (\<exists>ps b. at_path t ps (File b) \<and> ib = (written_info (root @ ps), b))"
  and zip_dirs_entries:
  "zip_dirs env root kids acc = (r, zf) \<Longrightarrow> ib \<in> set zf \<Longrightarrow>
     ib \<in> set acc \<or>
     (\<exists>n k ps b. (n, k) \<in> set kids \<and> at_path k ps (File b) \<and>
                 ib = (written_info (root @ n # ps), b))"
proof (induction env root t acc and env root kids acc arbitrary: r zf and r zf
    rule: zip_tree_zip_dirs.induct)
  case (1 env root kids acc)
  show ?case
  proof (cases "zip_files env root kids acc")
    case (Pair r1 a1)
    show ?thesis
    proof (cases r1)
      case (Some e)
      with Pair "1.prems" have "zf = a1" by simp
      with zip_files_entries_path [OF Pair] "1.prems"(2) show ?thesis by simp
    next
      case None
      with Pair "1.prems" have zd: "zip_dirs env root kids a1 = (r, zf)" by simp
      from "1.IH" [OF Pair [symmetric] _ zd "1.prems"(2)] None
      have "ib \<in> set a1 \<or> (\<exists>n k ps b. (n, k) \<in> set kids \<and> at_path k ps (File b) \<and>
                 ib = (written_info (root @ n # ps), b))"
        by simp
      then show ?thesis
      proof
        assume "ib \<in> set a1"
        with zip_files_entries_path [OF Pair] show ?thesis by simp
      next
        assume "\<exists>n k ps b. (n, k) \<in> set kids \<and> at_path k ps (File b) \<and>
                 ib = (written_info (root @ n # ps), b)"
        then show ?thesis using at_path_below_ex by blast
      qed
    qed
  qed
next
  case (2 env root b acc)
  then show ?case by simp
next
  case (3 env root acc)
  then show ?case by simp
next
  case (4 env root acc)
  then show ?case by simp
next
  case (5 env root name k rest acc)
  show ?case
  proof (cases k)
    case (File b)
    with "5.prems" have "zip_dirs env root rest acc = (r, zf)" by simp
    from "5.IH"(1) [OF File this "5.prems"(2)] show ?thesis by auto
  next
    case NoRead
    with "5.prems" have "zip_dirs env root rest acc = (r, zf)" by simp
    from "5.IH"(2) [OF NoRead this "5.prems"(2)] show ?thesis by auto
  next
    case (Dir sub)
    show ?thesis
    proof (cases "zip_tree env (root @ [name]) k acc")
      case (Pair r1 a1)
      show ?thesis
      proof (cases r1)
        case (Some e)
        with Pair Dir "5.prems" have "zf = a1" by simp
        with "5.IH"(3) [OF Dir Pair] "5.prems"(2) show ?thesis by auto
      next
        case None
        with Pair Dir "5.prems" have zd: "zip_dirs env root rest a1 = (r, zf)" by simp
        from "5.IH"(4) [OF Dir Pair [symmetric] _ zd "5.prems"(2)] None
        have "ib \<in> set a1 \<or> (\<exists>n k ps b. (n, k) \<in> set rest \<and> at_path k ps (File b) \<and>
                 ib = (written_info (root @ n # ps), b))"
          by simp
        then show ?thesis
        proof
          assume "ib \<in> set a1"
          with "5.IH"(3) [OF Dir Pair] show ?thesis by auto
        next
          assume "\<exists>n k ps b. (n, k) \<in> set rest \<and> at_path k ps (File b) \<and>
                 ib = (written_info (root @ n # ps), b)"
          then show ?thesis by auto
        qed
      qed
    qed
  qed
qed

lemma save_archive_None:
  "fst (save_archive env w t) = None \<Longrightarrow>
   \<exists>zf. zip_tree env [] t [] = (None, zf) \<and> target (snd (save_archive env w t)) = Some (Zip zf)"
  by (auto simp: save_archive_def build_zip_def cleanup_def Let_def
      split: prod.splits option.splits)


lemma close_target:
  assumes "mode h = RW" and "temp_dirs w (temp_dir h) = Some t"
    and "backend_close env w h True = (None, w')"
  shows "\<exists>zf. zip_tree env [] t [] = (None, zf) \<and> target w' = Some (Zip zf)"
proof -
  from assms have "fst (save_archive env w t) = None"
    by (auto simp: backend_close_def Let_def)
  from save_archive_None [OF this] obtain zf
    where z: "zip_tree env [] t [] = (None, zf)"
      and tg: "target (snd (save_archive env w t)) = Some (Zip zf)"
    by blast
  from assms have "target w' = target (snd (save_archive env w t))"
    by (auto simp: backend_close_def Let_def split: option.splits)
  with z tg show ?thesis by simp
qed

lemma no_entry_in_empty_dir:
  assumes wf: "wf_node t" and d: "at_path t ps d" and ne: "ps \<noteq> []" and emp: "\<not> has_file d"
    and f: "at_path t ps' (File b)"
  shows "join_str ''/'' ps' \<noteq> join_str ''/'' ps \<and>
         \<not> startswith (join_str ''/'' ps') (join_str ''/'' ps @ ''/'')"
proof -
  from at_path_valid [OF d wf] have vps: "\<forall>p \<in> set ps. valid_name p" by simp
  from at_path_valid [OF f wf] have vps': "\<forall>p \<in> set ps'. valid_name p" by simp
  have not_below: "ps' \<noteq> ps @ qs" for qs
  proof
    assume "ps' = ps @ qs"
    with f have "at_path t (ps @ qs) (File b)" by simp
    from at_path_det [OF d wf this] have "at_path d qs (File b)" .
    then have "has_file d" by (rule at_path_has_file) simp
    with emp show False by simp
  qed
  have ps'_ne: "ps' \<noteq> []"
  proof
    assume "ps' = []"
    with f have "t = File b" by (auto elim: at_path.cases)
    with d ne show False by (auto elim: at_path.cases)
  qed
  have sp: "split_str CHR ''/'' (join_str ''/'' ps) = ps"
    using ne vps by (intro split_join) (auto simp: valid_name_def)
  have sp': "split_str CHR ''/'' (join_str ''/'' ps') = ps'"
    using ps'_ne vps' by (intro split_join) (auto simp: valid_name_def)
  have a: "join_str ''/'' ps' \<noteq> join_str ''/'' ps"
  proof
    assume "join_str ''/'' ps' = join_str ''/'' ps"
    with sp sp' have "ps' = ps @ []" by simp
    with not_below show False by blast
  qed
  have b: "\<not> startswith (join_str ''/'' ps') (join_str ''/'' ps @ ''/'')"
  proof
    assume "startswith (join_str ''/'' ps') (join_str ''/'' ps @ ''/'')"
    then have "join_str ''/'' ps' =
        join_str ''/'' ps @ CHR ''/'' # drop (length (join_str ''/'' ps @ ''/'')) (join_str ''/'' ps')"
      unfolding startswith_def
      by (metis append_take_drop_id append.assoc append_Cons append_Nil)
    then have "split_str CHR ''/'' (join_str ''/'' ps') =
        split_str CHR ''/'' (join_str ''/'' ps) @
        split_str CHR ''/'' (drop (length (join_str ''/'' ps @ ''/'')) (join_str ''/'' ps'))"
      by (metis split_str_append)
    with sp sp' not_below show False by metis
  qed
  from a b show ?thesis by simp
qed

text \<open>
  C10. After a successful read-write \<open>close\<close> with \<open>save\<close> the archive path holds an
  archive each of whose entries is a regular file of the working directory, named by
  its relative path and holding its bytes. A directory beneath the working directory
  with no file anywhere in it has no entry: no entry bears its path, with or without
  the trailing slash, and none lies below it.
\<close>

theorem close_writes_only_files:
  assumes "mode h = RW"
    and "temp_dirs w (temp_dir h) = Some t"
    and "wf_node t"
    and "backend_close env w h True = (None, w')"
  shows "\<exists>zf. target w' = Some (Zip zf) \<and>
           (\<forall>ib \<in> set zf. \<exists>ps. at_path t ps (File (snd ib)) \<and>
                                 filename (fst ib) = join_str ''/'' ps) \<and>
           (\<forall>ps d. ps \<noteq> [] \<and> at_path t ps d \<and> \<not> has_file d \<longrightarrow>
              (\<forall>ib \<in> set zf. filename (fst ib) \<noteq> join_str ''/'' ps \<and>
                 \<not> startswith (filename (fst ib)) (join_str ''/'' ps @ ''/'')))"
proof -
  from close_target [OF assms(1,2,4)] obtain zf
    where z: "zip_tree env [] t [] = (None, zf)" and tg: "target w' = Some (Zip zf)"
    by blast
  have files: "\<exists>ps. at_path t ps (File (snd ib)) \<and> filename (fst ib) = join_str ''/'' ps"
    if "ib \<in> set zf" for ib
    using zip_tree_entries [OF z that] by auto
  have empty: "filename (fst ib) \<noteq> join_str ''/'' ps \<and>
                 \<not> startswith (filename (fst ib)) (join_str ''/'' ps @ ''/'')"
    if "ib \<in> set zf" "ps \<noteq> []" "at_path t ps d" "\<not> has_file d" for ib ps d
  proof -
    from files [OF that(1)] obtain ps'
      where "at_path t ps' (File (snd ib))" "filename (fst ib) = join_str ''/'' ps'"
      by blast
    with no_entry_in_empty_dir [OF assms(3) that(3) that(2) that(4)] show ?thesis by simp
  qed
  from tg files empty show ?thesis by blast
qed

theorem close_writes_only_files_witness:
  "\<exists>zf. target (snd (backend_close env_b (world_9 tree_ok) handle_9 True)) = Some (Zip zf) \<and>
     (\<forall>ib \<in> set zf. filename (fst ib) \<noteq> ''E'' \<and> \<not> startswith (filename (fst ib)) ''E/'')"
proof -
  have a: "mode handle_9 = RW" by (simp add: handle_9_def)
  have b: "temp_dirs (world_9 tree_ok) (temp_dir handle_9) = Some tree_ok"
    by (simp add: handle_9_def world_9_def)
  have c: "wf_node tree_ok" by (simp add: tree_ok_def valid_name_def)
  have d: "backend_close env_b (world_9 tree_ok) handle_9 True =
      (None, snd (backend_close env_b (world_9 tree_ok) handle_9 True))"
  proof -
    have "fst (backend_close env_b (world_9 tree_ok) handle_9 True) = None" by code_simp
    then show ?thesis by (simp add: prod_eq_iff)
  qed
  have e: "[''E''] \<noteq> [] \<and> at_path tree_ok [''E''] (Dir [(''F'', Dir [])]) \<and>
      \<not> has_file (Dir [(''F'', Dir [])])"
    by (auto simp: tree_ok_def intro!: at_path.intros)
  from close_writes_only_files [OF a b c d] e show ?thesis
    by (metis append_Cons append_Nil join_str.simps(2))
qed



end
